theory Spec2Isabelle
  imports Main "HOL-Library.Sublist"
begin

section \<open>The process bridge (src/cli.ts)\<close>

subsection \<open>Values, errors and the host\<close>

text \<open>
  Every error the bridge raises is a JavaScript \<open>Error\<close> object built with
  \<open>new Error(message)\<close>; the message is all that tells two of them apart.
\<close>

datatype js_error = Error string

text \<open>
  \<open>ExtensionContext\<close>, as far as \<open>getBundledCliPath\<close> reads it: the two optional places
  of the extension root (\<open>None\<close> is \<open>undefined\<close> or \<open>null\<close>).
\<close>

record ExtensionContext =
  extensionPath :: "string option"
  extensionUri_fsPath :: "string option"

text \<open>The error object that the callback of \<open>execFile\<close> receives.\<close>

record exec_error =
  message :: string
  errno_code :: "string option"
  killed :: bool
  signal :: "string option"

text \<open>
  The host the bridge runs on: \<open>process.platform\<close>, \<open>process.arch\<close>, the file system
  as \<open>existsSync\<close> sees it, and what \<open>execFile\<close> hands to its callback
  \<open>(err, stdout, stderr)\<close> for a binary, an argument vector and a timeout option in
  milliseconds.
\<close>

record world =
  process_platform :: string
  process_arch :: string
  existsSync :: "string \<Rightarrow> bool"
  execFile :: "string \<Rightarrow> string list \<Rightarrow> nat \<Rightarrow> exec_error option \<times> string \<times> string"

text \<open>What \<open>run\<close> does to the outside: the permission fix and the child process.\<close>

datatype effect =
  Chmod string nat
| ExecFile string "string list" nat

record BridgeResult =
  stdout :: string
  stderr :: string

text \<open>The module variable \<open>extensionContext\<close>, \<open>null\<close> until \<open>setContext\<close> runs.\<close>

record cli_module =
  extensionContext :: "ExtensionContext option"

definition cli_initial :: cli_module where
  "cli_initial = \<lparr>extensionContext = None\<rparr>"

definition setContext :: "ExtensionContext \<Rightarrow> cli_module \<Rightarrow> cli_module" where
  "setContext ctx m = m\<lparr>extensionContext := Some ctx\<rparr>"

subsection \<open>Library functions the bridge calls\<close>

text \<open>
  \<open>path.join\<close> glues its segments with the separator of the platform (a backslash on
  Windows, a slash elsewhere). The segments the bridge appends are plain names, so the
  normalisation \<open>path.join\<close> also performs can only rewrite the root; it is left out.
\<close>

definition path_sep :: "string \<Rightarrow> char" where
  "path_sep platform = (if platform = ''win32'' then CHR 0x5C else CHR ''/'')"

definition path_join :: "string \<Rightarrow> string \<Rightarrow> string list \<Rightarrow> string" where
  "path_join platform root segs = root @ concat (map (\<lambda>s. path_sep platform # s) segs)"

text \<open>\<open>String.prototype.trim\<close> on the ASCII white space and line terminators.\<close>

definition is_space :: "char \<Rightarrow> bool" where
  "is_space c = (c \<in> set [CHR 0x09, CHR 0x0A, CHR 0x0B, CHR 0x0C, CHR 0x0D, CHR 0x20])"

definition trim :: "string \<Rightarrow> string" where
  "trim s = rev (dropWhile is_space (rev (dropWhile is_space s)))"

text \<open>\<open>String(err)\<close> for an \<open>Error\<close>: its name, then the message when there is one.\<close>

definition String_of_error :: "exec_error \<Rightarrow> string" where
  "String_of_error e = (if message e = [] then ''Error'' else ''Error: '' @ message e)"

text \<open>\<open>haystack.includes(needle)\<close>.\<close>

definition str_includes :: "string \<Rightarrow> string \<Rightarrow> bool" where
  "str_includes haystack needle = sublist needle haystack"

subsection \<open>Binary resolution and \<open>run\<close>\<close>

definition getBundledCliPath :: "world \<Rightarrow> ExtensionContext \<Rightarrow> js_error + string" where
  "getBundledCliPath w ctx =
    (let extRoot = (case extensionPath ctx of Some p \<Rightarrow> Some p | None \<Rightarrow> extensionUri_fsPath ctx) in
     case extRoot of
       None \<Rightarrow> Inl (Error ''extension root path not available'')
     | Some root \<Rightarrow>
        if root = [] then Inl (Error ''extension root path not available'')
        else if process_platform w = ''darwin'' then
          Inr (path_join (process_platform w) root [''res'', ''bin'', ''darwin-universal'', ''costa''])
        else if process_platform w = ''win32'' then
          Inr (path_join (process_platform w) root [''res'', ''bin'', ''win32-x64'', ''costa.exe''])
        else if process_arch w = ''arm64'' then
          Inr (path_join (process_platform w) root [''res'', ''bin'', ''linux-arm64'', ''costa''])
        else
          Inr (path_join (process_platform w) root [''res'', ''bin'', ''linux-x64'', ''costa'']))"

text \<open>
  The callback \<open>run\<close> passes to \<open>execFile\<close>, given the binary that was launched: it
  settles the promise of \<open>run\<close>.
\<close>

definition on_exit :: "string \<Rightarrow> exec_error option \<times> string \<times> string \<Rightarrow> js_error + BridgeResult" where
  "on_exit binToUse r =
    (case r of (err, out, errout) \<Rightarrow>
      (case err of
         Some e \<Rightarrow>
           (let msg = trim errout in
            if str_includes (message e) ''ENOENT'' \<and> binToUse = ''costa'' then
              Inl (Error ''Costa CLI not found. Please reinstall the extension or install costa CLI manually.'')
            else
              Inl (Error (if msg \<noteq> [] then String_of_error e @ [CHR 0x0A] @ msg else String_of_error e)))
       | None \<Rightarrow> Inr \<lparr>stdout = out, stderr = errout\<rparr>))"

text \<open>
  \<open>run\<close> returns how its promise settles together with the effects it had, in order.
\<close>

definition run :: "cli_module \<Rightarrow> world \<Rightarrow> string list \<Rightarrow> (js_error + BridgeResult) \<times> effect list" where
  "run m w args =
    (case extensionContext m of
       None \<Rightarrow> (Inl (Error ''CLI context not initialized. Call setContext() first.''), [])
     | Some ctx \<Rightarrow>
        (case getBundledCliPath w ctx of
           Inl e \<Rightarrow> (Inl e, [])
         | Inr bundledBin \<Rightarrow>
            (let binToUse = (if existsSync w bundledBin then bundledBin else ''costa'');
                 chmod = (if existsSync w bundledBin \<and> process_platform w \<noteq> ''win32''
                        then [Chmod bundledBin 0x1ED] else [])
             in (on_exit binToUse (execFile w binToUse args 15000),
                 chmod @ [ExecFile binToUse args 15000]))))"

subsection \<open>The typed operations\<close>

text \<open>
  \<open>JSON.parse\<close> followed by the type assertion is a parameter: a function from the
  captured standard output to the typed result, or to the error it throws. Each
  operation logs an error and throws it again unchanged.
\<close>

definition login :: "(string \<Rightarrow> js_error + 'a) \<Rightarrow> cli_module \<Rightarrow> world \<Rightarrow> (js_error + 'a) \<times> effect list" where
  "login JSON_parse m w =
    (case run m w [''login'', ''--format'', ''json''] of
       (Inl e, fx) \<Rightarrow> (Inl e, fx)
     | (Inr r, fx) \<Rightarrow> (JSON_parse (stdout r), fx))"

definition status :: "(string \<Rightarrow> js_error + 'a) \<Rightarrow> cli_module \<Rightarrow> world \<Rightarrow> (js_error + 'a) \<times> effect list" where
  "status JSON_parse m w =
    (case run m w [''status'', ''--format'', ''json''] of
       (Inl e, fx) \<Rightarrow> (Inl e, fx)
     | (Inr r, fx) \<Rightarrow> (JSON_parse (stdout r), fx))"

definition token :: "(string \<Rightarrow> js_error + 'a) \<Rightarrow> cli_module \<Rightarrow> world \<Rightarrow> (js_error + 'a) \<times> effect list" where
  "token JSON_parse m w =
    (case run m w [''token'', ''--format'', ''json''] of
       (Inl e, fx) \<Rightarrow> (Inl e, fx)
     | (Inr r, fx) \<Rightarrow> (JSON_parse (stdout r), fx))"

definition logout :: "cli_module \<Rightarrow> world \<Rightarrow> (js_error + unit) \<times> effect list" where
  "logout m w =
    (case run m w [''logout''] of
       (Inl e, fx) \<Rightarrow> (Inl e, fx)
     | (Inr r, fx) \<Rightarrow> (Inr (), fx))"

section \<open>Usage data (src/usageStream.ts)\<close>

text \<open>
  A field of a parsed JSON object: absent (\<open>undefined\<close>), \<open>null\<close>, a number or a
  text. The numbers are only handed on, never computed with.
\<close>

datatype jsval = Undefined | Null | Number int | Text string

record StatusResult =
  logged_in :: bool
  points :: jsval
  total_points :: jsval

record UsageData =
  usage_points :: jsval
  usage_total_points :: jsval
  context_length :: jsval

text \<open>The operator \<open>??\<close>: the right operand when the left one is \<open>undefined\<close> or \<open>null\<close>.\<close>

definition nullish :: "jsval \<Rightarrow> jsval \<Rightarrow> jsval" where
  "nullish v d = (if v = Undefined \<or> v = Null then d else v)"

text \<open>
  \<open>fetchUsageData\<close> from the point where its \<open>await cli.status()\<close> settles: the
  \<open>usage\<close> events it emits, and how its own promise settles.
\<close>

definition fetchUsageData :: "js_error + StatusResult \<Rightarrow> UsageData list \<times> (js_error + unit)" where
  "fetchUsageData r =
    (case r of
       Inl e \<Rightarrow> ([], Inl e)
     | Inr statusResult \<Rightarrow>
        if \<not> logged_in statusResult then ([], Inr ())
        else
          (let data = \<lparr>usage_points = nullish (points statusResult) (Number 0),
                       usage_total_points = nullish (total_points statusResult) (Number 0),
                       context_length = Text ''-''\<rparr>
           in if usage_points data \<noteq> Undefined \<or> usage_total_points data \<noteq> Undefined
                 \<or> context_length data \<noteq> Undefined
              then ([data], Inr ())
              else ([], Inr ())))"

section \<open>Timers of the event loop\<close>

text \<open>
  One event loop runs everything. A timer is the handle \<open>setTimeout\<close> or
  \<open>setInterval\<close> returned, the time it is due, the period when it repeats, and the
  closure it runs. A handle is an object, so it is never \<open>null\<close> and never reused;
  clearing a handle that is no longer active does nothing.
\<close>

record 'c timer =
  handle :: nat
  due :: nat
  repeat :: "nat option"
  callback :: 'c

record 'c loop =
  now :: nat
  next_handle :: nat
  timers :: "'c timer list"

text \<open>The delay a timer really gets: outside of \<open>1 .. 2^31 - 1\<close> milliseconds it is 1.\<close>

definition timer_delay :: "int \<Rightarrow> nat" where
  "timer_delay ms = (if 1 \<le> ms \<and> ms \<le> 2147483647 then nat ms else 1)"

definition setTimeout :: "'c \<Rightarrow> int \<Rightarrow> ('c, 'm) loop_scheme \<Rightarrow> nat \<times> ('c, 'm) loop_scheme" where
  "setTimeout cb ms l =
    (next_handle l,
     l\<lparr>next_handle := Suc (next_handle l),
       timers := timers l @
         [\<lparr>handle = next_handle l, due = now l + timer_delay ms, repeat = None, callback = cb\<rparr>]\<rparr>)"

definition setInterval :: "'c \<Rightarrow> int \<Rightarrow> ('c, 'm) loop_scheme \<Rightarrow> nat \<times> ('c, 'm) loop_scheme" where
  "setInterval cb ms l =
    (next_handle l,
     l\<lparr>next_handle := Suc (next_handle l),
       timers := timers l @
         [\<lparr>handle = next_handle l, due = now l + timer_delay ms,
           repeat = Some (timer_delay ms), callback = cb\<rparr>]\<rparr>)"

definition clearTimeout :: "nat \<Rightarrow> ('c, 'm) loop_scheme \<Rightarrow> ('c, 'm) loop_scheme" where
  "clearTimeout h l = l\<lparr>timers := filter (\<lambda>t. handle t \<noteq> h) (timers l)\<rparr>"

definition clearInterval :: "nat \<Rightarrow> ('c, 'm) loop_scheme \<Rightarrow> ('c, 'm) loop_scheme" where
  "clearInterval h l = l\<lparr>timers := filter (\<lambda>t. handle t \<noteq> h) (timers l)\<rparr>"

text \<open>
  Time passes only up to the next timer that is due: the clock never skips a timer.
\<close>

definition can_advance :: "nat \<Rightarrow> ('c, 'm) loop_scheme \<Rightarrow> bool" where
  "can_advance d l = list_all (\<lambda>t. now l + d \<le> due t) (timers l)"

text \<open>
  A timer fires no earlier than it is due. A one-shot timer is then gone; a repeating
  one is due again one period after the time it fired. The result is the closure to run.
\<close>

definition fire :: "nat \<Rightarrow> ('c, 'm) loop_scheme \<Rightarrow> ('c \<times> ('c, 'm) loop_scheme) option" where
  "fire h l =
    (case find (\<lambda>t. handle t = h) (timers l) of
       None \<Rightarrow> None
     | Some t \<Rightarrow>
        if now l < due t then None
        else Some (callback t,
          l\<lparr>timers :=
            (case repeat t of
               None \<Rightarrow> filter (\<lambda>u. handle u \<noteq> h) (timers l)
             | Some p \<Rightarrow> map (\<lambda>u. if handle u = h then u\<lparr>due := now l + p\<rparr> else u) (timers l))\<rparr>))"

text \<open>
  What can happen next on the loop: a caller calls into the usage stream, time passes,
  a due timer fires, or the \<open>cli.status()\<close> call at a position of the list of calls
  in flight settles, with a result or an error.
\<close>

datatype event =
  Connect
| Disconnect
| FetchUsageData
| Advance nat
| Fire nat
| Settle nat "js_error + StatusResult"

section \<open>The usage stream supervisor (class UsageStream)\<close>

text \<open>The two closures the supervisor hands to the timers.\<close>

datatype stream_cb = PollTick | ReconnectFire

text \<open>Who awaits a \<open>fetchUsageData\<close> whose \<open>cli.status()\<close> is in flight.\<close>

datatype waiter = ByConnect | ByPollTick | ByCaller

text \<open>
  The three private fields of the class, the calls in flight, and what an observer
  counts: the \<open>cli.status()\<close> calls begun, the \<open>usage\<close> events emitted and the timer
  closures that ran.
\<close>

record stream = "stream_cb loop" +
  pollInterval :: "nat option"
  reconnectTimeout :: "nat option"
  isConnecting :: bool
  inflight :: "waiter list"
  status_calls :: nat
  emitted :: "UsageData list"
  fired :: "stream_cb list"

definition new_stream :: stream where
  "new_stream = \<lparr>now = 0, next_handle = 0, timers = [],
     pollInterval = None, reconnectTimeout = None, isConnecting = False,
     inflight = [], status_calls = 0, emitted = [], fired = []\<rparr>"

definition begin_fetch :: "waiter \<Rightarrow> stream \<Rightarrow> stream" where
  "begin_fetch k s = s\<lparr>inflight := inflight s @ [k], status_calls := Suc (status_calls s)\<rparr>"

definition end_fetch :: "js_error + StatusResult \<Rightarrow> stream \<Rightarrow> (js_error + unit) \<times> stream" where
  "end_fetch r s = (case fetchUsageData r of (evs, res) \<Rightarrow> (res, s\<lparr>emitted := emitted s @ evs\<rparr>))"

definition setupPolling :: "stream \<Rightarrow> stream" where
  "setupPolling s =
    (let s1 = (case pollInterval s of Some h \<Rightarrow> clearInterval h s | None \<Rightarrow> s)
     in case setInterval PollTick 3000 s1 of (h, s2) \<Rightarrow> s2\<lparr>pollInterval := Some h\<rparr>)"

definition scheduleReconnect :: "stream \<Rightarrow> stream" where
  "scheduleReconnect s =
    (let s1 = (case reconnectTimeout s of Some h \<Rightarrow> clearTimeout h s | None \<Rightarrow> s)
     in case setTimeout ReconnectFire 5000 s1 of (h, s2) \<Rightarrow> s2\<lparr>reconnectTimeout := Some h\<rparr>)"

definition disconnect :: "stream \<Rightarrow> stream" where
  "disconnect s =
    (let s1 = (case reconnectTimeout s of
                 Some h \<Rightarrow> (clearTimeout h s)\<lparr>reconnectTimeout := None\<rparr>
               | None \<Rightarrow> s)
     in case pollInterval s1 of
          Some h \<Rightarrow> (clearInterval h s1)\<lparr>pollInterval := None\<rparr>
        | None \<Rightarrow> s1)"

text \<open>\<open>connect\<close> up to its \<open>await\<close>, and from there on.\<close>

definition connect :: "stream \<Rightarrow> stream" where
  "connect s = (if isConnecting s then s else begin_fetch ByConnect (s\<lparr>isConnecting := True\<rparr>))"

definition connect_resume :: "js_error + StatusResult \<Rightarrow> stream \<Rightarrow> stream" where
  "connect_resume r s =
    (case end_fetch r s of
       (Inr u, s1) \<Rightarrow> (setupPolling s1)\<lparr>isConnecting := False\<rparr>
     | (Inl e, s1) \<Rightarrow> (scheduleReconnect s1)\<lparr>isConnecting := False\<rparr>)"

text \<open>The closure of the poll interval: the fetch it begins, and its \<open>catch\<close>.\<close>

definition poll_resume :: "js_error + StatusResult \<Rightarrow> stream \<Rightarrow> stream" where
  "poll_resume r s =
    (case end_fetch r s of
       (Inr u, s1) \<Rightarrow> s1
     | (Inl e, s1) \<Rightarrow> scheduleReconnect s1)"

definition run_callback :: "stream_cb \<Rightarrow> stream \<Rightarrow> stream" where
  "run_callback cb s =
    (case cb of
       PollTick \<Rightarrow> begin_fetch ByPollTick (s\<lparr>fired := fired s @ [PollTick]\<rparr>)
     | ReconnectFire \<Rightarrow> connect (s\<lparr>fired := fired s @ [ReconnectFire]\<rparr>))"

definition resume :: "waiter \<Rightarrow> js_error + StatusResult \<Rightarrow> stream \<Rightarrow> stream" where
  "resume k r s =
    (case k of
       ByConnect \<Rightarrow> connect_resume r s
     | ByPollTick \<Rightarrow> poll_resume r s
     | ByCaller \<Rightarrow> snd (end_fetch r s))"

text \<open>One step of the loop; \<open>None\<close> when the event cannot happen in the state.\<close>

fun stream_step :: "event \<Rightarrow> stream \<Rightarrow> stream option" where
  "stream_step Connect s = Some (connect s)"
| "stream_step Disconnect s = Some (disconnect s)"
| "stream_step FetchUsageData s = Some (begin_fetch ByCaller s)"
| "stream_step (Advance d) s = (if can_advance d s then Some (s\<lparr>now := now s + d\<rparr>) else None)"
| "stream_step (Fire h) s =
    (case fire h s of None \<Rightarrow> None | Some (cb, s1) \<Rightarrow> Some (run_callback cb s1))"
| "stream_step (Settle i r) s =
    (if i < length (inflight s)
     then Some (resume (inflight s ! i) r (s\<lparr>inflight := take i (inflight s) @ drop (Suc i) (inflight s)\<rparr>))
     else None)"

fun stream_run :: "event list \<Rightarrow> stream \<Rightarrow> stream option" where
  "stream_run [] s = Some s"
| "stream_run (e # es) s = (case stream_step e s of None \<Rightarrow> None | Some s1 \<Rightarrow> stream_run es s1)"


section \<open>The login poller (command \<open>costa.login\<close>)\<close>









section \<open>Invariants of the two supervisors\<close>

text \<open>
  A timer of the usage stream is the one its field names: a poll timer is the handle
  in \<open>pollInterval\<close> and repeats every 3000 ms, a reconnect timer is the handle in
  \<open>reconnectTimeout\<close> and fires once.
\<close>

definition timer_ok :: "stream \<Rightarrow> stream_cb timer \<Rightarrow> bool" where
  "timer_ok s t =
    (handle t < next_handle s \<and>
     (callback t = PollTick \<and> pollInterval s = Some (handle t) \<and> repeat t = Some 3000
      \<or> callback t = ReconnectFire \<and> reconnectTimeout s = Some (handle t) \<and> repeat t = None))"

definition stream_inv :: "stream \<Rightarrow> bool" where
  "stream_inv s =
    (distinct (map handle (timers s)) \<and> list_all (timer_ok s) (timers s) \<and>
     length (filter (\<lambda>k. k = ByConnect) (inflight s)) = (if isConnecting s then 1 else 0))"









section \<open>What the specification expects, and sample hosts\<close>

text \<open>
  The table of the specification: the directory and the name of the bundled binary for
  a platform and an architecture.
\<close>

definition expected_relative :: "string \<Rightarrow> string \<Rightarrow> string list" where
  "expected_relative platform arch =
    (if platform = ''darwin'' then [''darwin-universal'', ''costa'']
     else if platform = ''win32'' then [''win32-x64'', ''costa.exe'']
     else if platform = ''linux'' \<and> arch = ''arm64'' then [''linux-arm64'', ''costa'']
     else [''linux-x64'', ''costa''])"

text \<open>The sign for "unlimited", U+221E, as its three bytes in UTF-8.\<close>

definition infinity_sign :: string where
  "infinity_sign = [CHR 0xE2, CHR 0x88, CHR 0x9E]"

definition demo_context :: ExtensionContext where
  "demo_context = \<lparr>extensionPath = Some ''/ext'', extensionUri_fsPath = None\<rparr>"

text \<open>A Linux host with neither the bundled binary nor \<open>costa\<close> on the search path.\<close>

definition enoent_world :: "string \<Rightarrow> world" where
  "enoent_world arch = \<lparr>process_platform = ''linux'', process_arch = arch, existsSync = (\<lambda>f. False),
     execFile = (\<lambda>bin args t.
       (Some \<lparr>message = ''spawn '' @ bin @ '' ENOENT'', errno_code = Some ''ENOENT'',
              killed = False, signal = None\<rparr>, [], []))\<rparr>"




text \<open>Three ways a \<open>cli.status()\<close> call can settle.\<close>

definition status_ok :: "js_error + StatusResult" where
  "status_ok = Inr \<lparr>logged_in = True, points = Number 5, total_points = Text infinity_sign\<rparr>"


definition status_failed :: "js_error + StatusResult" where
  "status_failed = Inl (Error ''Error: Command failed'')"

text \<open>States of the usage stream that the sample runs below reach.\<close>

definition connecting_twice :: stream where
  "connecting_twice = \<lparr>now = 0, next_handle = 0, timers = [],
     pollInterval = None, reconnectTimeout = None, isConnecting = True,
     inflight = [ByConnect], status_calls = 1, emitted = [], fired = []\<rparr>"



definition one_failure :: stream where
  "one_failure = \<lparr>now = 6000, next_handle = 2,
     timers = [\<lparr>handle = 0, due = 9000, repeat = Some 3000, callback = PollTick\<rparr>,
               \<lparr>handle = 1, due = 8000, repeat = None, callback = ReconnectFire\<rparr>],
     pollInterval = Some 0, reconnectTimeout = Some 1, isConnecting = False,
     inflight = [ByPollTick], status_calls = 3,
     emitted = [\<lparr>usage_points = Number 5, usage_total_points = Text infinity_sign, context_length = Text ''-''\<rparr>],
     fired = [PollTick, PollTick]\<rparr>"




section \<open>Properties of the process bridge\<close>

text \<open>
  Claim C6. Binary resolution reads the platform, the architecture and the extension
  root only. On macOS, Windows and Linux, with a root at hand, it returns the root
  joined with \<open>res\<close>, \<open>bin\<close> and the directory and binary name of the table
  (\<open>darwin-universal/costa\<close>, \<open>win32-x64/costa.exe\<close>, \<open>linux-arm64/costa\<close> on Linux
  ARM64, \<open>linux-x64/costa\<close> otherwise), so the path ends in them; it ends in \<open>.exe\<close>
  on Windows only; and when that path does not exist, the one process \<open>run\<close> launches
  is the unqualified name \<open>costa\<close>.
\<close>

theorem binary_resolution:
  assumes root: "extensionPath ctx = Some root \<or> (extensionPath ctx = None \<and> extensionUri_fsPath ctx = Some root)"
    and ne: "root \<noteq> []"
    and plat: "process_platform w \<in> {''darwin'', ''win32'', ''linux''}"
  shows "\<exists>p. getBundledCliPath w ctx = Inr p
      \<and> p = path_join (process_platform w) root
              ([''res'', ''bin''] @ expected_relative (process_platform w) (process_arch w))
      \<and> suffix (concat (map (\<lambda>s. path_sep (process_platform w) # s)
                  (expected_relative (process_platform w) (process_arch w)))) p
      \<and> (suffix ''.exe'' p \<longleftrightarrow> process_platform w = ''win32'')
      \<and> (\<forall>w'. process_platform w' = process_platform w \<and> process_arch w' = process_arch w
             \<longrightarrow> getBundledCliPath w' ctx = Inr p)
      \<and> (\<not> existsSync w p
             \<longrightarrow> snd (run \<lparr>extensionContext = Some ctx\<rparr> w args) = [ExecFile ''costa'' args 15000])"
proof -
  have ext: "(case extensionPath ctx of Some p \<Rightarrow> Some p | None \<Rightarrow> extensionUri_fsPath ctx) = Some root"
    using root by auto
  show ?thesis
    using plat ne
    by (auto simp: getBundledCliPath_def ext expected_relative_def path_join_def path_sep_def
        run_def suffix_to_prefix Let_def)
qed

theorem binary_resolution_witness:
  "\<exists>p. getBundledCliPath (enoent_world ''arm64'') demo_context = Inr p
     \<and> p = ''/ext/res/bin/linux-arm64/costa''
     \<and> suffix ''/linux-arm64/costa'' p
     \<and> \<not> suffix ''.exe'' p
     \<and> snd (run \<lparr>extensionContext = Some demo_context\<rparr> (enoent_world ''arm64'') [''status''])
         = [ExecFile ''costa'' [''status''] 15000]"
  using binary_resolution [of demo_context "''/ext''" "enoent_world ''arm64''" "[''status'']"]
  by (simp add: demo_context_def enoent_world_def expected_relative_def path_join_def path_sep_def)

lemma generic_not_found:
  "(if m \<noteq> [] then String_of_error e @ [CHR 0x0A] @ m else String_of_error e)
     \<noteq> ''Costa CLI not found. Please reinstall the extension or install costa CLI manually.''"
  by (simp add: String_of_error_def)

text \<open>
  Claim C7. When the bundled path does not exist and launching the fallback name
  \<open>costa\<close> fails with an error whose message contains \<open>ENOENT\<close>, \<open>run\<close> fails with
  the error "Costa CLI not found. ...", which is not the generic error made of the
  text of the system error and the trimmed standard error.
\<close>

theorem binary_not_found:
  assumes "extensionContext m = Some ctx"
    and "getBundledCliPath w ctx = Inr bundledBin"
    and "\<not> existsSync w bundledBin"
    and "execFile w ''costa'' args 15000 = (Some e, out, errout)"
    and "str_includes (message e) ''ENOENT''"
  shows "fst (run m w args) =
           Inl (Error ''Costa CLI not found. Please reinstall the extension or install costa CLI manually.'')
       \<and> fst (run m w args) \<noteq>
           Inl (Error (if trim errout \<noteq> [] then String_of_error e @ [CHR 0x0A] @ trim errout
                       else String_of_error e))"
  using assms generic_not_found [of "trim errout" e]
  by (simp add: run_def on_exit_def Let_def)

theorem binary_not_found_witness:
  "fst (run (setContext demo_context cli_initial) (enoent_world ''x64'') [''status'', ''--format'', ''json'']) =
     Inl (Error ''Costa CLI not found. Please reinstall the extension or install costa CLI manually.'')"
  using binary_not_found [of "setContext demo_context cli_initial" demo_context "enoent_world ''x64''"
      "''/ext/res/bin/linux-x64/costa''" "[''status'', ''--format'', ''json'']"
      "\<lparr>message = ''spawn costa ENOENT'', errno_code = Some ''ENOENT'', killed = False, signal = None\<rparr>"
      "[]" "[]"]
  by (simp add: setContext_def cli_initial_def demo_context_def enoent_world_def getBundledCliPath_def
      path_join_def path_sep_def str_includes_def sublist_code(3))




lemma fold_setContext:
  "extensionContext (fold setContext cs m) = (if cs = [] then extensionContext m else Some (last cs))"
  by (induction cs arbitrary: m) (auto simp: setContext_def)

lemma on_exit_not_uninitialized:
  "on_exit b r \<noteq> Inl (Error ''CLI context not initialized. Call setContext() first.'')"
  by (cases r) (auto simp: on_exit_def String_of_error_def Let_def split: option.splits)

lemma getBundledCliPath_not_uninitialized:
  "getBundledCliPath w c \<noteq> Inl (Error ''CLI context not initialized. Call setContext() first.'')"
  by (auto simp: getBundledCliPath_def Let_def split: option.splits)

text \<open>
  Claim C10. Before any \<open>setContext\<close>, each of \<open>login\<close>, \<open>status\<close>, \<open>token\<close> and
  \<open>logout\<close> fails with "CLI context not initialized. Call setContext() first." and
  has no effect, so no child process. After one or more calls of \<open>setContext\<close> the
  module variable holds the last context, and \<open>run\<close> never fails with that error again,
  whatever the context, the host and the arguments.
\<close>

theorem context_precondition:
  "login P cli_initial w = (Inl (Error ''CLI context not initialized. Call setContext() first.''), [])
   \<and> status P' cli_initial w = (Inl (Error ''CLI context not initialized. Call setContext() first.''), [])
   \<and> token P'' cli_initial w = (Inl (Error ''CLI context not initialized. Call setContext() first.''), [])
   \<and> logout cli_initial w = (Inl (Error ''CLI context not initialized. Call setContext() first.''), [])
   \<and> extensionContext (fold setContext (ctx # ctxs) cli_initial) = Some (last (ctx # ctxs))
   \<and> fst (run (fold setContext (ctx # ctxs) cli_initial) w args)
        \<noteq> Inl (Error ''CLI context not initialized. Call setContext() first.'')"
proof -
  have before: "run cli_initial w a = (Inl (Error ''CLI context not initialized. Call setContext() first.''), [])" for a
    by (simp add: run_def cli_initial_def)
  have after: "extensionContext (fold setContext (ctx # ctxs) cli_initial) = Some (last (ctx # ctxs))"
    using fold_setContext [of "ctx # ctxs" cli_initial] by simp
  have "fst (run (fold setContext (ctx # ctxs) cli_initial) w args)
        \<noteq> Inl (Error ''CLI context not initialized. Call setContext() first.'')"
    unfolding run_def after
    using on_exit_not_uninitialized getBundledCliPath_not_uninitialized [of w "last (ctx # ctxs)"]
    by (auto simp: Let_def split: sum.splits)
  with before after show ?thesis
    by (simp add: login_def status_def token_def logout_def)
qed

section \<open>Properties of \<open>fetchUsageData\<close>\<close>

text \<open>
  Claim C5. When the status says not logged in, \<open>fetchUsageData\<close> completes without
  an error and emits nothing. For \<open>{logged_in: true, points: 5, total_points: "\<infinity>"}\<close>
  it emits exactly one event, with points 5 and the text unchanged. When logged in it
  emits one event in which an absent \<open>points\<close> or \<open>total_points\<close> is 0 and every text
  or number is the one of the status.
\<close>

theorem fetchUsageData_emits:
  "(\<not> logged_in st \<longrightarrow> fetchUsageData (Inr st) = ([], Inr ()) \<and> end_fetch (Inr st) s = (Inr (), s))
   \<and> fetchUsageData (Inr \<lparr>logged_in = True, points = Number 5, total_points = Text infinity_sign\<rparr>)
       = ([\<lparr>usage_points = Number 5, usage_total_points = Text infinity_sign, context_length = Text ''-''\<rparr>], Inr ())
   \<and> (logged_in st \<longrightarrow>
        (\<exists>d. fetchUsageData (Inr st) = ([d], Inr ())
           \<and> (points st = Undefined \<longrightarrow> usage_points d = Number 0)
           \<and> (total_points st = Undefined \<longrightarrow> usage_total_points d = Number 0)
           \<and> (\<forall>t. points st = Text t \<longrightarrow> usage_points d = Text t)
           \<and> (\<forall>t. total_points st = Text t \<longrightarrow> usage_total_points d = Text t)
           \<and> (\<forall>n. points st = Number n \<longrightarrow> usage_points d = Number n)
           \<and> (\<forall>n. total_points st = Number n \<longrightarrow> usage_total_points d = Number n)))"
  by (simp add: fetchUsageData_def end_fetch_def nullish_def Let_def)

theorem fetchUsageData_emits_witness:
  "fetchUsageData (Inr \<lparr>logged_in = False, points = Number 7, total_points = Undefined\<rparr>) = ([], Inr ())
   \<and> (\<exists>d. fetchUsageData (Inr \<lparr>logged_in = True, points = Undefined, total_points = Text ''unlimited''\<rparr>)
            = ([d], Inr ())
        \<and> usage_points d = Number 0 \<and> usage_total_points d = Text ''unlimited'')"
  using fetchUsageData_emits [of "\<lparr>logged_in = False, points = Number 7, total_points = Undefined\<rparr>"]
    fetchUsageData_emits [of "\<lparr>logged_in = True, points = Undefined, total_points = Text ''unlimited''\<rparr>"]
  by simp

text \<open>
  Claim C9. The default 0 is put in before the check for a present field, so the first
  operand of the check is never \<open>undefined\<close>: for every status that says logged in,
  \<open>fetchUsageData\<close> emits exactly one event, the snapshot with the defaults; for the
  empty status \<open>{logged_in: true}\<close> it is \<open>{points: 0, total_points: 0, context_length: "-"}\<close>.
\<close>

theorem emission_guard_always_passes:
  "nullish v (Number 0) \<noteq> Undefined
   \<and> (logged_in st \<longrightarrow>
        fetchUsageData (Inr st) =
          ([\<lparr>usage_points = nullish (points st) (Number 0),
             usage_total_points = nullish (total_points st) (Number 0),
             context_length = Text ''-''\<rparr>], Inr ()))
   \<and> fetchUsageData (Inr \<lparr>logged_in = True, points = Undefined, total_points = Undefined\<rparr>)
       = ([\<lparr>usage_points = Number 0, usage_total_points = Number 0, context_length = Text ''-''\<rparr>], Inr ())"
  by (simp add: fetchUsageData_def nullish_def Let_def)

theorem emission_guard_always_passes_witness:
  "fetchUsageData (Inr \<lparr>logged_in = True, points = Null, total_points = Number 3\<rparr>)
     = ([\<lparr>usage_points = Number 0, usage_total_points = Number 3, context_length = Text ''-''\<rparr>], Inr ())"
  using emission_guard_always_passes [of Undefined "\<lparr>logged_in = True, points = Null, total_points = Number 3\<rparr>"]
  by (simp add: nullish_def)

section \<open>Properties of the usage stream supervisor\<close>

subsection \<open>The invariant holds in every reachable state\<close>

lemmas stream_defs = new_stream_def connect_def begin_fetch_def end_fetch_def setupPolling_def
  scheduleReconnect_def disconnect_def connect_resume_def poll_resume_def run_callback_def resume_def
  fetchUsageData_def nullish_def setTimeout_def setInterval_def clearTimeout_def clearInterval_def
  can_advance_def fire_def timer_delay_def Let_def status_ok_def status_failed_def infinity_sign_def

lemma inv_new: "stream_inv new_stream"
  by (simp add: stream_inv_def new_stream_def)

lemma inv_setupPolling: "stream_inv s \<Longrightarrow> stream_inv (setupPolling s)"
  by (auto simp: stream_inv_def setupPolling_def setInterval_def clearInterval_def timer_ok_def
      timer_delay_def list_all_iff distinct_map_filter split: option.splits)

lemma inv_scheduleReconnect: "stream_inv s \<Longrightarrow> stream_inv (scheduleReconnect s)"
  by (auto simp: stream_inv_def scheduleReconnect_def setTimeout_def clearTimeout_def timer_ok_def
      timer_delay_def list_all_iff distinct_map_filter split: option.splits)

lemma timers_disconnect: "stream_inv s \<Longrightarrow> timers (disconnect s) = []"
  by (auto simp: stream_inv_def disconnect_def clearTimeout_def clearInterval_def timer_ok_def
      list_all_iff filter_empty_conv Let_def split: option.splits)

lemma inv_disconnect: "stream_inv s \<Longrightarrow> stream_inv (disconnect s)"
  using timers_disconnect [of s]
  by (auto simp: stream_inv_def) (auto simp: disconnect_def clearTimeout_def clearInterval_def Let_def split: option.splits)


lemma inv_begin_fetch: "stream_inv s \<Longrightarrow> k \<noteq> ByConnect \<Longrightarrow> stream_inv (begin_fetch k s)"
  by (auto simp: stream_inv_def begin_fetch_def timer_ok_def list_all_iff)

lemma inv_connect: "stream_inv s \<Longrightarrow> stream_inv (connect s)"
  by (auto simp: stream_inv_def connect_def begin_fetch_def timer_ok_def list_all_iff)

lemma end_fetch_fields:
  "end_fetch r s = (res, s1) \<Longrightarrow>
     timers s1 = timers s \<and> next_handle s1 = next_handle s \<and> now s1 = now s
     \<and> pollInterval s1 = pollInterval s \<and> reconnectTimeout s1 = reconnectTimeout s
     \<and> inflight s1 = inflight s \<and> isConnecting s1 = isConnecting s
     \<and> status_calls s1 = status_calls s \<and> fired s1 = fired s"
  by (auto simp: end_fetch_def split: prod.splits)

lemma inv_end_fetch: "stream_inv s \<Longrightarrow> end_fetch r s = (res, s1) \<Longrightarrow> stream_inv s1"
  using end_fetch_fields [of r s res s1] by (simp add: stream_inv_def timer_ok_def list_all_iff)

lemma inflight_setupPolling: "inflight (setupPolling s) = inflight s \<and> isConnecting (setupPolling s) = isConnecting s"
  by (simp add: setupPolling_def setInterval_def clearInterval_def split: option.splits)

lemma inflight_scheduleReconnect:
  "inflight (scheduleReconnect s) = inflight s \<and> isConnecting (scheduleReconnect s) = isConnecting s"
  by (simp add: scheduleReconnect_def setTimeout_def clearTimeout_def split: option.splits)

lemma inv_isConnecting_update:
  "stream_inv s \<Longrightarrow> length (filter (\<lambda>k. k = ByConnect) (inflight s)) = (if b then 1 else 0)
    \<Longrightarrow> stream_inv (s\<lparr>isConnecting := b\<rparr>)"
  by (auto simp: stream_inv_def timer_ok_def list_all_iff)

lemma inv_inflight_update:
  "stream_inv s \<Longrightarrow> length (filter (\<lambda>k. k = ByConnect) ks) = (if isConnecting s then 1 else 0)
    \<Longrightarrow> stream_inv (s\<lparr>inflight := ks\<rparr>)"
  by (auto simp: stream_inv_def timer_ok_def list_all_iff)

lemma filter_remove_nth:
  "i < length xs \<Longrightarrow>
    length (filter P xs) = length (filter P (take i xs @ drop (Suc i) xs)) + (if P (xs ! i) then 1 else 0)"
proof -
  assume "i < length xs"
  then have "xs = take i xs @ xs ! i # drop (Suc i) xs"
    by (rule id_take_nth_drop)
  then have "filter P xs = filter P (take i xs) @ filter P (xs ! i # drop (Suc i) xs)"
    by (metis filter_append)
  then show ?thesis by simp
qed

lemma inv_connect_resume:
  assumes "stream_inv s" and "filter (\<lambda>k. k = ByConnect) (inflight s) = []"
  shows "stream_inv (connect_resume r s) \<and> \<not> isConnecting (connect_resume r s)"
proof -
  obtain res s1 where e: "end_fetch r s = (res, s1)" by (cases "end_fetch r s")
  have f: "inflight s1 = inflight s" using end_fetch_fields [OF e] by simp
  have i1: "stream_inv s1" using assms(1) e by (rule inv_end_fetch)
  show ?thesis
  proof (cases res)
    case (Inl err)
    then have c: "connect_resume r s = (scheduleReconnect s1)\<lparr>isConnecting := False\<rparr>"
      by (simp add: connect_resume_def e)
    show ?thesis unfolding c
      using inv_scheduleReconnect [OF i1] inflight_scheduleReconnect [of s1] assms(2) f
      by (simp add: inv_isConnecting_update)
  next
    case (Inr u)
    then have c: "connect_resume r s = (setupPolling s1)\<lparr>isConnecting := False\<rparr>"
      by (simp add: connect_resume_def e)
    show ?thesis unfolding c
      using inv_setupPolling [OF i1] inflight_setupPolling [of s1] assms(2) f
      by (simp add: inv_isConnecting_update)
  qed
qed

lemma inv_poll_resume: "stream_inv s \<Longrightarrow> stream_inv (poll_resume r s)"
  by (auto simp: poll_resume_def split: prod.splits sum.splits
      intro: inv_end_fetch inv_scheduleReconnect)

lemma inv_caller_resume: "stream_inv s \<Longrightarrow> stream_inv (snd (end_fetch r s))"
  by (cases "end_fetch r s") (auto intro: inv_end_fetch)

lemma inv_settle:
  assumes "stream_inv s" and "i < length (inflight s)"
  shows "stream_inv (resume (inflight s ! i) r (s\<lparr>inflight := take i (inflight s) @ drop (Suc i) (inflight s)\<rparr>))"
proof -
  let ?ks = "take i (inflight s) @ drop (Suc i) (inflight s)"
  let ?s = "s\<lparr>inflight := ?ks\<rparr>"
  have cnt: "length (filter (\<lambda>k. k = ByConnect) (inflight s)) =
      length (filter (\<lambda>k. k = ByConnect) ?ks) + (if inflight s ! i = ByConnect then 1 else 0)"
    using assms(2) by (rule filter_remove_nth)
  have tot: "length (filter (\<lambda>k. k = ByConnect) (inflight s)) = (if isConnecting s then 1 else 0)"
    using assms(1) by (simp add: stream_inv_def)
  show ?thesis
  proof (cases "inflight s ! i")
    case ByConnect
    with cnt tot have z: "filter (\<lambda>k. k = ByConnect) ?ks = []" and c: "isConnecting s"
      by (auto split: if_splits)
    have "stream_inv (?s\<lparr>isConnecting := False\<rparr>)"
      using assms(1) z by (auto simp: stream_inv_def timer_ok_def list_all_iff)
    moreover have "connect_resume r ?s = connect_resume r (?s\<lparr>isConnecting := False\<rparr>)"
      by (simp add: connect_resume_def end_fetch_def setupPolling_def scheduleReconnect_def
          setInterval_def setTimeout_def clearInterval_def clearTimeout_def
          split: prod.splits sum.splits option.splits)
    moreover have "filter (\<lambda>k. k = ByConnect) (inflight (?s\<lparr>isConnecting := False\<rparr>)) = []"
      using z by simp
    ultimately show ?thesis
      using inv_connect_resume [of "?s\<lparr>isConnecting := False\<rparr>" r] ByConnect
      by (simp add: resume_def)
  next
    case ByPollTick
    with cnt tot have "stream_inv ?s"
      using assms(1) by (auto intro: inv_inflight_update)
    then show ?thesis using ByPollTick by (simp add: resume_def inv_poll_resume)
  next
    case ByCaller
    with cnt tot have "stream_inv ?s"
      using assms(1) by (auto intro: inv_inflight_update)
    then show ?thesis using ByCaller by (simp add: resume_def inv_caller_resume)
  qed
qed


lemma inv_fire:
  assumes "stream_inv s" and "fire h s = Some (cb, s1)"
  shows "stream_inv s1"
proof -
  obtain t where t: "find (\<lambda>t. handle t = h) (timers s) = Some t" and d: "\<not> now s < due t"
    and s1: "s1 = s\<lparr>timers := (case repeat t of
               None \<Rightarrow> filter (\<lambda>u. handle u \<noteq> h) (timers s)
             | Some p \<Rightarrow> map (\<lambda>u. if handle u = h then u\<lparr>due := now s + p\<rparr> else u) (timers s))\<rparr>"
    using assms(2) by (auto simp: fire_def split: option.splits if_splits)
  have m: "handle \<circ> (\<lambda>u. if handle u = h then u\<lparr>due := now s + p\<rparr> else u) = handle" for p
    by (auto simp: fun_eq_iff)
  show ?thesis
  proof (cases "repeat t")
    case None
    then show ?thesis using assms(1) unfolding s1
      by (auto simp: stream_inv_def timer_ok_def list_all_iff distinct_map_filter)
  next
    case (Some p)
    then show ?thesis using assms(1) unfolding s1
      by (auto simp: stream_inv_def timer_ok_def list_all_iff m)
  qed
qed

lemma inv_run_callback: "stream_inv s \<Longrightarrow> stream_inv (run_callback cb s)"
proof -
  assume i: "stream_inv s"
  have "stream_inv (s\<lparr>fired := fired s @ [cb]\<rparr>)"
    using i by (auto simp: stream_inv_def timer_ok_def list_all_iff)
  then show ?thesis
    by (cases cb) (auto simp: run_callback_def intro: inv_begin_fetch inv_connect)
qed

lemma inv_advance: "stream_inv s \<Longrightarrow> stream_inv (s\<lparr>now := n\<rparr>)"
  by (auto simp: stream_inv_def timer_ok_def list_all_iff)

lemma inv_step: "stream_inv s \<Longrightarrow> stream_step e s = Some s' \<Longrightarrow> stream_inv s'"
proof (cases e)
  case (Fire h)
  assume "stream_inv s" "stream_step e s = Some s'"
  then show ?thesis using Fire
    by (auto split: option.splits intro: inv_fire inv_run_callback)
next
  case (Settle i r)
  assume "stream_inv s" "stream_step e s = Some s'"
  then show ?thesis using Settle inv_settle [of s i r]
    by (auto split: if_splits)
qed (auto intro: inv_connect inv_disconnect inv_begin_fetch inv_advance split: if_splits)

lemma inv_run: "stream_inv s \<Longrightarrow> stream_run es s = Some s' \<Longrightarrow> stream_inv s'"
  by (induction es arbitrary: s) (auto split: option.splits dest: inv_step)

lemma inv_reachable: "stream_run es new_stream = Some s \<Longrightarrow> stream_inv s"
  using inv_new by (rule inv_run)

subsection \<open>One timer of each kind\<close>

lemma at_most_one:
  "distinct (map f xs) \<Longrightarrow> (\<forall>x\<in>set xs. P x \<longrightarrow> f x = c) \<Longrightarrow> length (filter P xs) \<le> 1"
proof (induction xs)
  case Nil
  then show ?case by simp
next
  case (Cons x xs)
  show ?case
  proof (cases "P x")
    case True
    have "f x \<notin> f ` set xs" using Cons.prems(1) by simp
    moreover have "\<forall>y\<in>set xs. P y \<longrightarrow> f y = f x" using True Cons.prems(2) by simp
    ultimately have "\<forall>y\<in>set xs. \<not> P y" by (metis imageI)
    then have "filter P xs = []" by (simp add: filter_empty_conv)
    with True show ?thesis by simp
  next
    case False
    with Cons show ?thesis by simp
  qed
qed

lemma find_distinct:
  "distinct (map handle ts) \<Longrightarrow> t \<in> set ts \<Longrightarrow> find (\<lambda>u. handle u = handle t) ts = Some t"
  by (induction ts) force+

lemma one_poll: "stream_inv s \<Longrightarrow> length (filter (\<lambda>t. callback t = PollTick) (timers s)) \<le> 1"
proof (cases "pollInterval s")
  case None
  assume "stream_inv s"
  with None have "filter (\<lambda>t. callback t = PollTick) (timers s) = []"
    by (auto simp: stream_inv_def timer_ok_def list_all_iff filter_empty_conv)
  then show ?thesis by simp
next
  case (Some h)
  assume "stream_inv s"
  with Some show ?thesis
    by (intro at_most_one [where f = handle and c = h])
       (auto simp: stream_inv_def timer_ok_def list_all_iff)
qed

lemma one_reconnect: "stream_inv s \<Longrightarrow> length (filter (\<lambda>t. callback t = ReconnectFire) (timers s)) \<le> 1"
proof (cases "reconnectTimeout s")
  case None
  assume "stream_inv s"
  with None have "filter (\<lambda>t. callback t = ReconnectFire) (timers s) = []"
    by (auto simp: stream_inv_def timer_ok_def list_all_iff filter_empty_conv)
  then show ?thesis by simp
next
  case (Some h)
  assume "stream_inv s"
  with Some show ?thesis
    by (intro at_most_one [where f = handle and c = h])
       (auto simp: stream_inv_def timer_ok_def list_all_iff)
qed

lemma reconnect_replaced:
  "\<forall>t\<in>set (timers s). callback t = ReconnectFire \<longrightarrow> reconnectTimeout s = Some (handle t)
   \<Longrightarrow> filter (\<lambda>t. callback t = ReconnectFire) (timers (scheduleReconnect s))
     = [\<lparr>handle = next_handle s, due = now s + 5000, repeat = None, callback = ReconnectFire\<rparr>]"
  by (auto simp: filter_empty_conv scheduleReconnect_def
      setTimeout_def clearTimeout_def timer_delay_def split: option.splits)

lemma poll_replaced:
  "\<forall>t\<in>set (timers s). callback t = PollTick \<longrightarrow> pollInterval s = Some (handle t)
   \<Longrightarrow> filter (\<lambda>t. callback t = PollTick) (timers (setupPolling s))
     = [\<lparr>handle = next_handle s, due = now s + 3000, repeat = Some 3000, callback = PollTick\<rparr>]"
  by (auto simp: filter_empty_conv setupPolling_def
      setInterval_def clearInterval_def timer_delay_def split: option.splits)

lemma inv_tracks:
  "stream_inv s \<Longrightarrow>
    (\<forall>t\<in>set (timers s). callback t = ReconnectFire \<longrightarrow> reconnectTimeout s = Some (handle t))
    \<and> (\<forall>t\<in>set (timers s). callback t = PollTick \<longrightarrow> pollInterval s = Some (handle t))"
  by (auto simp: stream_inv_def timer_ok_def list_all_iff)

lemma poll_failure_step:
  assumes "stream_inv s" and "i < length (inflight s)" and "inflight s ! i = ByPollTick"
  shows "\<exists>s'. stream_step (Settle i (Inl e)) s = Some s'
     \<and> filter (\<lambda>t. callback t = ReconnectFire) (timers s')
        = [\<lparr>handle = next_handle s, due = now s + 5000, repeat = None, callback = ReconnectFire\<rparr>]"
proof -
  let ?s = "s\<lparr>inflight := take i (inflight s) @ drop (Suc i) (inflight s)\<rparr>"
  have st: "stream_step (Settle i (Inl e)) s = Some (scheduleReconnect (?s\<lparr>emitted := emitted s @ []\<rparr>))"
    using assms(2,3) by (simp add: resume_def poll_resume_def end_fetch_def fetchUsageData_def)
  have "\<forall>t\<in>set (timers (?s\<lparr>emitted := emitted s @ []\<rparr>)). callback t = ReconnectFire
          \<longrightarrow> reconnectTimeout (?s\<lparr>emitted := emitted s @ []\<rparr>) = Some (handle t)"
    using inv_tracks [OF assms(1)] by simp
  from reconnect_replaced [OF this] st show ?thesis by simp
qed

lemma reconnect_fires:
  assumes "stream_inv s" and "t \<in> set (timers s)" and "callback t = ReconnectFire"
  shows "stream_step (Fire (handle t)) s =
    (if now s < due t then None
     else Some (connect (s\<lparr>timers := filter (\<lambda>u. handle u \<noteq> handle t) (timers s),
                           fired := fired s @ [ReconnectFire]\<rparr>)))"
proof -
  have f: "find (\<lambda>u. handle u = handle t) (timers s) = Some t"
    using assms(1,2) by (auto simp: stream_inv_def intro: find_distinct)
  have r: "repeat t = None"
    using assms by (auto simp: stream_inv_def timer_ok_def list_all_iff)
  show ?thesis
    by (simp add: fire_def f r assms(3) run_callback_def)
qed

text \<open>
  Claim C4. In every state the supervisor can reach, at most one poll timer and at
  most one reconnect timer are active. Scheduling a reconnect leaves exactly one
  reconnect timer, the new one, due 5000 ms later; so does a failing poll, also when a
  reconnect was pending already. Setting up polling leaves exactly one poll timer, the
  new one, with period 3000 ms. A pending reconnect timer fires no earlier than it is
  due, and then runs \<open>connect\<close>.
\<close>

theorem one_timer_of_each_kind:
  assumes "stream_run evs new_stream = Some s"
  shows "length (filter (\<lambda>t. callback t = PollTick) (timers s)) \<le> 1
     \<and> length (filter (\<lambda>t. callback t = ReconnectFire) (timers s)) \<le> 1
     \<and> filter (\<lambda>t. callback t = ReconnectFire) (timers (scheduleReconnect s))
         = [\<lparr>handle = next_handle s, due = now s + 5000, repeat = None, callback = ReconnectFire\<rparr>]
     \<and> filter (\<lambda>t. callback t = PollTick) (timers (setupPolling s))
         = [\<lparr>handle = next_handle s, due = now s + 3000, repeat = Some 3000, callback = PollTick\<rparr>]
     \<and> (\<forall>i e. i < length (inflight s) \<and> inflight s ! i = ByPollTick \<longrightarrow>
          (\<exists>s'. stream_step (Settle i (Inl e)) s = Some s'
             \<and> filter (\<lambda>t. callback t = ReconnectFire) (timers s')
                = [\<lparr>handle = next_handle s, due = now s + 5000, repeat = None, callback = ReconnectFire\<rparr>]))
     \<and> (\<forall>t\<in>set (timers s). callback t = ReconnectFire \<longrightarrow>
          stream_step (Fire (handle t)) s =
            (if now s < due t then None
             else Some (connect (s\<lparr>timers := filter (\<lambda>u. handle u \<noteq> handle t) (timers s),
                                   fired := fired s @ [ReconnectFire]\<rparr>))))"
proof -
  have i: "stream_inv s" using assms by (rule inv_reachable)
  show ?thesis
    using one_poll [OF i] one_reconnect [OF i] inv_tracks [OF i]
      reconnect_replaced [of s] poll_replaced [of s] poll_failure_step [OF i] reconnect_fires [OF i]
    by blast
qed

theorem one_timer_of_each_kind_witness:
  "stream_run [Connect, Settle 0 status_ok, Advance 3000, Fire 0, Settle 0 status_failed, Advance 3000, Fire 0] new_stream
     = Some one_failure
   \<and> (\<exists>s'. stream_step (Settle 0 status_failed) one_failure = Some s'
        \<and> filter (\<lambda>t. callback t = ReconnectFire) (timers s')
            = [\<lparr>handle = 2, due = 11000, repeat = None, callback = ReconnectFire\<rparr>])
   \<and> length (filter (\<lambda>t. callback t = PollTick) (timers one_failure)) \<le> 1"
proof -
  have r: "stream_run [Connect, Settle 0 status_ok, Advance 3000, Fire 0, Settle 0 status_failed, Advance 3000, Fire 0] new_stream
     = Some one_failure"
    by (simp add: stream_defs one_failure_def)
  note t = one_timer_of_each_kind [OF r]
  from t have a: "length (filter (\<lambda>t. callback t = PollTick) (timers one_failure)) \<le> 1"
    by (elim conjE)
  from t have "\<forall>i e. i < length (inflight one_failure) \<and> inflight one_failure ! i = ByPollTick \<longrightarrow>
          (\<exists>s'. stream_step (Settle i (Inl e)) one_failure = Some s'
             \<and> filter (\<lambda>t. callback t = ReconnectFire) (timers s')
                = [\<lparr>handle = next_handle one_failure, due = now one_failure + 5000, repeat = None, callback = ReconnectFire\<rparr>])"
    by (elim conjE)
  moreover have "0 < length (inflight one_failure) \<and> inflight one_failure ! 0 = ByPollTick"
    by (simp add: one_failure_def)
  ultimately have "\<exists>s'. stream_step (Settle 0 (Inl (Error ''Error: Command failed''))) one_failure = Some s'
             \<and> filter (\<lambda>t. callback t = ReconnectFire) (timers s')
                = [\<lparr>handle = next_handle one_failure, due = now one_failure + 5000, repeat = None, callback = ReconnectFire\<rparr>]"
    by (elim allE [of _ 0] allE [of _ "Error ''Error: Command failed''"] impE) assumption+
  then have b: "\<exists>s'. stream_step (Settle 0 status_failed) one_failure = Some s'
        \<and> filter (\<lambda>t. callback t = ReconnectFire) (timers s')
            = [\<lparr>handle = 2, due = 11000, repeat = None, callback = ReconnectFire\<rparr>]"
    by (simp add: status_failed_def one_failure_def)
  from r a b show ?thesis by (intro conjI)
qed

subsection \<open>The reentrancy guard of \<open>connect\<close>\<close>

lemma connecting_iff:
  assumes "stream_inv s"
  shows "isConnecting s \<longleftrightarrow> ByConnect \<in> set (inflight s)"
proof -
  have m: "ByConnect \<in> set (inflight s) \<longleftrightarrow> filter (\<lambda>k. k = ByConnect) (inflight s) \<noteq> []"
    by (auto simp: filter_empty_conv)
  have "length (filter (\<lambda>k. k = ByConnect) (inflight s)) = (if isConnecting s then 1 else 0)"
    using assms by (simp add: stream_inv_def)
  then have "isConnecting s \<longleftrightarrow> filter (\<lambda>k. k = ByConnect) (inflight s) \<noteq> []"
    by (cases "isConnecting s") auto
  with m show ?thesis by simp
qed

lemma settle_connect:
  assumes "stream_inv s" and "i < length (inflight s)" and "inflight s ! i = ByConnect"
  shows "\<exists>s'. stream_step (Settle i r) s = Some s' \<and> \<not> isConnecting s' \<and> ByConnect \<notin> set (inflight s')"
proof -
  let ?s' = "resume (inflight s ! i) r (s\<lparr>inflight := take i (inflight s) @ drop (Suc i) (inflight s)\<rparr>)"
  have st: "stream_step (Settle i r) s = Some ?s'" using assms(2) by simp
  have i': "stream_inv ?s'" using assms(1,2) by (rule inv_settle)
  have "\<not> isConnecting ?s'"
    by (simp add: assms(3) resume_def connect_resume_def split: prod.splits sum.splits)
  with st i' connecting_iff [OF i'] show ?thesis by simp
qed

text \<open>
  Claim C3. In every reachable state: while the fetch of a \<open>connect\<close> is pending, a
  further \<open>connect\<close> changes nothing, so it begins no fetch; when none is pending,
  two calls of \<open>connect\<close> in a row begin exactly one fetch; and however the pending
  fetch settles, with a status or with an error, the connecting flag is cleared.
\<close>

theorem connect_reentrancy:
  assumes "stream_run evs new_stream = Some s"
  shows "(ByConnect \<in> set (inflight s) \<longrightarrow> connect s = s)
   \<and> (ByConnect \<notin> set (inflight s) \<longrightarrow>
        connect (connect s) = connect s \<and> status_calls (connect s) = Suc (status_calls s)
        \<and> inflight (connect s) = inflight s @ [ByConnect])
   \<and> (\<forall>i r. i < length (inflight s) \<and> inflight s ! i = ByConnect \<longrightarrow>
        (\<exists>s'. stream_step (Settle i r) s = Some s' \<and> \<not> isConnecting s' \<and> ByConnect \<notin> set (inflight s')))"
proof -
  have i: "stream_inv s" using assms by (rule inv_reachable)
  have a: "ByConnect \<in> set (inflight s) \<longrightarrow> connect s = s"
    using connecting_iff [OF i] by (simp add: connect_def)
  have b: "ByConnect \<notin> set (inflight s) \<longrightarrow>
        connect (connect s) = connect s \<and> status_calls (connect s) = Suc (status_calls s)
        \<and> inflight (connect s) = inflight s @ [ByConnect]"
    using connecting_iff [OF i] by (simp add: connect_def begin_fetch_def)
  show ?thesis using a b settle_connect [OF i] by blast
qed

theorem connect_reentrancy_witness:
  "stream_run [Connect, Connect] new_stream = Some connecting_twice
   \<and> connect connecting_twice = connecting_twice
   \<and> (\<exists>s'. stream_step (Settle 0 status_failed) connecting_twice = Some s' \<and> \<not> isConnecting s')
   \<and> (\<exists>s'. stream_step (Settle 0 status_ok) connecting_twice = Some s' \<and> \<not> isConnecting s')"
proof -
  have r: "stream_run [Connect, Connect] new_stream = Some connecting_twice"
    by (simp add: stream_defs connecting_twice_def)
  note t = connect_reentrancy [OF r]
  have m: "ByConnect \<in> set (inflight connecting_twice)"
    "0 < length (inflight connecting_twice) \<and> inflight connecting_twice ! 0 = ByConnect"
    by (simp_all add: connecting_twice_def)
  from t m(1) have a: "connect connecting_twice = connecting_twice" by simp
  from t have "\<forall>i r. i < length (inflight connecting_twice) \<and> inflight connecting_twice ! i = ByConnect \<longrightarrow>
        (\<exists>s'. stream_step (Settle i r) connecting_twice = Some s' \<and> \<not> isConnecting s' \<and> ByConnect \<notin> set (inflight s'))"
    by (elim conjE)
  then have b: "\<exists>s'. stream_step (Settle 0 r) connecting_twice = Some s' \<and> \<not> isConnecting s' \<and> ByConnect \<notin> set (inflight s')" for r
    using m(2) by (elim allE [of _ 0] allE [of _ r] impE) assumption+
  from r a b [of status_failed] b [of status_ok] show ?thesis by (intro conjI) auto
qed

subsection \<open>After \<open>disconnect\<close>\<close>







section \<open>Properties of the login poller\<close>





















end
